theory Spec2Isabelle
  imports Main
begin

section \<open>Text operations of the host language\<close>

text \<open>
  The program is \<^verbatim>\<open>ticket_gui_db.py\<close>. Its texts are Python \<^verbatim>\<open>str\<close> values, sequences
  of Unicode code points; a text is modelled as the list of its code points, and \<open>lit\<close>
  turns a literal of the source into its text.
\<close>

type_synonym str = "nat list"

definition lit :: "string \<Rightarrow> str" where
  "lit s = map of_char s"

text \<open>The marker that lines 78, 113, 116, 134 and 135 write out, and the bar of lines 78, 116
  and 135.\<close>

definition marker :: str where
  "marker = lit ''BookingID:''"

definition bar :: nat where
  "bar = of_char CHR ''|''"

text \<open>\<^verbatim>\<open>sub in s\<close>: \<open>sub\<close> occurs in \<open>s\<close> as a contiguous run.\<close>

fun str_contains :: "str \<Rightarrow> str \<Rightarrow> bool" where
  "str_contains sub [] = (sub = [])"
| "str_contains sub (c # cs) = (take (length sub) (c # cs) = sub \<or> str_contains sub cs)"

text \<open>\<^verbatim>\<open>s.split(sep)[0]\<close> for a one-character separator: the text before its first occurrence,
  the whole text when there is none.\<close>

definition split_first :: "nat \<Rightarrow> str \<Rightarrow> str" where
  "split_first sep s = takeWhile (\<lambda>c. c \<noteq> sep) s"

text \<open>\<^verbatim>\<open>s.replace(old, "")\<close>: the occurrences of \<open>old\<close> are found from the left, without
  overlap, and deleted; an empty \<open>old\<close> deletes nothing.\<close>

function (sequential) str_delete :: "str \<Rightarrow> str \<Rightarrow> str" where
  "str_delete old [] = []"
| "str_delete old (c # cs) =
     (if old \<noteq> [] \<and> take (length old) (c # cs) = old
      then str_delete old (drop (length old) (c # cs))
      else c # str_delete old cs)"
  by pat_completeness auto
termination
  by (relation "measure (\<lambda>(old, s). length s)") (auto simp: neq_Nil_conv)

text \<open>\<^verbatim>\<open>s.strip()\<close> removes leading and trailing white space: the code points for which
  \<^verbatim>\<open>str.isspace\<close> holds, which are the 29 listed here.\<close>

definition isspace :: "nat \<Rightarrow> bool" where
  "isspace c =
     (c \<in> {0x09, 0x0A, 0x0B, 0x0C, 0x0D, 0x1C, 0x1D, 0x1E, 0x1F, 0x20, 0x85, 0xA0, 0x1680,
             0x2000, 0x2001, 0x2002, 0x2003, 0x2004, 0x2005, 0x2006, 0x2007, 0x2008, 0x2009,
             0x200A, 0x2028, 0x2029, 0x202F, 0x205F, 0x3000})"

definition strip :: "str \<Rightarrow> str" where
  "strip s = rev (dropWhile isspace (rev (dropWhile isspace s)))"

text \<open>\<^verbatim>\<open>str(n)\<close> for an integer, as the f-string of line 78 renders the booking id.\<close>

fun str_nat :: "nat \<Rightarrow> str" where
  "str_nat n = (if n < 10 then [48 + n] else str_nat (n div 10) @ [48 + n mod 10])"

declare str_nat.simps [simp del]

definition str_int :: "int \<Rightarrow> str" where
  "str_int i = (if i < 0 then of_char CHR ''-'' # str_nat (nat (- i)) else str_nat (nat i))"

section \<open>What the database engine does with a text key\<close>

text \<open>
  The decoded booking id is a text, and it is bound as such to \<^verbatim>\<open>WHERE id=?\<close> (line 117)
  and to the \<^verbatim>\<open>booking_id\<close> column (line 98). Both columns are declared INTEGER, so
  SQLite converts the text to a number where it can. A text that is a plain integer (optional
  white space around an optional sign and at least one decimal digit) becomes that integer;
  this case is written out below. Every other text goes through the engine's floating-point
  reader: \<^verbatim>\<open>1.0\<close> and \<^verbatim>\<open>1e0\<close> become the integer 1, \<^verbatim>\<open>1.5\<close> becomes a REAL,
  \<^verbatim>\<open>abc\<close> stays a text. Floating point is not embedded here; what the engine makes of a
  text that is not a plain integer is a parameter \<open>fp\<close> of every operation that binds the id.
  Integers are unbounded here, as the row ids are: a plain integer of any length is read as
  itself, where the engine, whose integers have 64 bits, reads one beyond them as a REAL.
\<close>

definition sqlite_isspace :: "nat \<Rightarrow> bool" where
  "sqlite_isspace c = (c \<in> {9, 10, 11, 12, 13, 32})"

definition isdigit :: "nat \<Rightarrow> bool" where
  "isdigit c = (48 \<le> c \<and> c \<le> 57)"

definition digits_value :: "str \<Rightarrow> nat" where
  "digits_value ds = foldl (\<lambda>a c. 10 * a + (c - 48)) 0 ds"

definition unsigned_of_text :: "str \<Rightarrow> nat option" where
  "unsigned_of_text ds = (if ds \<noteq> [] \<and> list_all isdigit ds then Some (digits_value ds) else None)"

text \<open>The integer that a text of plain integer shape denotes.\<close>

definition integer_of_text :: "str \<Rightarrow> int option" where
  "integer_of_text s =
     (case rev (dropWhile sqlite_isspace (rev (dropWhile sqlite_isspace s))) of
        [] \<Rightarrow> None
      | c # cs \<Rightarrow>
          if c = of_char CHR ''-'' then map_option (\<lambda>n. - int n) (unsigned_of_text cs)
          else if c = of_char CHR ''+'' then map_option int (unsigned_of_text cs)
          else map_option int (unsigned_of_text (c # cs)))"

text \<open>
  A converted value: an integer, a REAL (kept as the text it was read from), or the text
  itself when it is not a number.
\<close>

datatype sql_value = SqlInteger int | SqlReal str | SqlText str

text \<open>
  The engine's reading of a text that is not a plain integer: \<open>SqlInteger n\<close> when the
  floating-point value read is the integer \<open>n\<close>, \<open>SqlReal\<close> when it is another number,
  \<open>SqlText\<close> when the text is not a number.
\<close>

type_synonym float_reader = "str \<Rightarrow> sql_value"

definition integer_affinity :: "float_reader \<Rightarrow> str \<Rightarrow> sql_value" where
  "integer_affinity fp s = (case integer_of_text s of Some n \<Rightarrow> SqlInteger n | None \<Rightarrow> fp s)"

section \<open>The record store\<close>

text \<open>
  The two tables of lines 20 to 39. \<open>rowid\<close> is the column \<^verbatim>\<open>id\<close> of \<^verbatim>\<open>bookings\<close>
  (an INTEGER PRIMARY KEY is the table's rowid), and \<open>log_method\<close> is the column
  \<^verbatim>\<open>method\<close> of \<^verbatim>\<open>validation_logs\<close>. The catalogue cells \<^verbatim>\<open>Time\<close> and
  \<^verbatim>\<open>Fare\<close> are carried as the text \<^verbatim>\<open>str\<close> gives them, which is what line 78 puts in
  the payload; nothing below reads the fare as a number.
\<close>

record booking =
  rowid :: int
  passenger :: str
  route :: str
  time :: str
  fare :: str
  status :: str

record validation_log =
  log_id :: int
  booking_id :: sql_value
  log_method :: str
  timestamp :: str

text \<open>
  The running store: the rows of both tables in insertion order, and for each table the largest
  id AUTOINCREMENT has handed out so far (the table's entry in \<^verbatim>\<open>sqlite_sequence\<close>).
\<close>

record store =
  bookings :: "booking list"
  bookings_seq :: int
  validation_logs :: "validation_log list"
  validation_logs_seq :: int

datatype error =
    ValidationError  \<comment> \<open>line 66: no passenger name or no route\<close>
  | IndexError       \<comment> \<open>line 68: the selection points outside the catalogue\<close>
  | NoFileChosen     \<comment> \<open>line 106: the file dialog was dismissed\<close>
  | NoQRCode         \<comment> \<open>line 110: the image holds no code\<close>
  | FormatError      \<comment> \<open>line 114: the text lacks the marker\<close>
  | NoValidQR        \<comment> \<open>line 152: the camera session ended without a match\<close>
  | StoreError       \<comment> \<open>a statement the engine refuses\<close>

subsection \<open>Database setup (lines 14 to 40)\<close>

text \<open>
  What the file \<^verbatim>\<open>tickets.db\<close> holds when the program starts: for each of the two tables
  either nothing or the rows and the sequence entry an earlier run left.
\<close>

record db_file =
  bookings_table :: "(booking list \<times> int) option"
  validation_logs_table :: "(validation_log list \<times> int) option"

definition drop_bookings :: "db_file \<Rightarrow> db_file" where
  "drop_bookings f = f\<lparr>bookings_table := None\<rparr>"

definition drop_validation_logs :: "db_file \<Rightarrow> db_file" where
  "drop_validation_logs f = f\<lparr>validation_logs_table := None\<rparr>"

text \<open>\<^verbatim>\<open>CREATE TABLE\<close> without \<^verbatim>\<open>IF NOT EXISTS\<close> is refused when the table is there.\<close>

definition create_bookings :: "db_file \<Rightarrow> error + db_file" where
  "create_bookings f =
     (case bookings_table f of
        None \<Rightarrow> Inr (f\<lparr>bookings_table := Some ([], 0)\<rparr>)
      | Some t \<Rightarrow> Inl StoreError)"

definition create_validation_logs :: "db_file \<Rightarrow> error + db_file" where
  "create_validation_logs f =
     (case validation_logs_table f of
        None \<Rightarrow> Inr (f\<lparr>validation_logs_table := Some ([], 0)\<rparr>)
      | Some t \<Rightarrow> Inl StoreError)"

text \<open>The store the rest of the program runs on: both tables are there.\<close>

definition open_store :: "db_file \<Rightarrow> error + store" where
  "open_store f =
     (case (bookings_table f, validation_logs_table f) of
        (Some (bs, n), Some (ls, m)) \<Rightarrow>
          Inr \<lparr>bookings = bs, bookings_seq = n, validation_logs = ls, validation_logs_seq = m\<rparr>
      | _ \<Rightarrow> Inl StoreError)"

definition database_setup :: "db_file \<Rightarrow> error + store" where
  "database_setup f =
     (case create_bookings (drop_validation_logs (drop_bookings f)) of
        Inl e \<Rightarrow> Inl e
      | Inr f1 \<Rightarrow>
          (case create_validation_logs f1 of
             Inl e \<Rightarrow> Inl e
           | Inr f2 \<Rightarrow> open_store f2))"

subsection \<open>Booking (lines 62 to 93)\<close>

text \<open>
  One row of the route catalogue \<^verbatim>\<open>routes_df\<close>, each cell as the text the f-strings of
  lines 70 and 78 render it to.
\<close>

record route_row =
  BusNo :: str
  Source :: str
  Destination :: str
  Time :: str
  Fare :: str

text \<open>The f-string of line 78, over the row that line 72 inserts.\<close>

definition qr_data :: "booking \<Rightarrow> str" where
  "qr_data b =
     marker @ str_int (rowid b) @ lit ''|Passenger:'' @ passenger b @ lit ''|Route:'' @ route b
       @ lit ''|Time:'' @ time b @ lit ''|Fare:'' @ fare b"

text \<open>
  The INSERT of line 72: AUTOINCREMENT gives the row the id after the largest one handed out,
  and the column \<^verbatim>\<open>status\<close> takes its default.
\<close>

definition insert_booking :: "str \<Rightarrow> str \<Rightarrow> str \<Rightarrow> str \<Rightarrow> store \<Rightarrow> booking \<times> store" where
  "insert_booking p r t f s =
     (let b = \<lparr>rowid = bookings_seq s + 1, passenger = p, route = r, time = t, fare = f,
                status = lit ''Booked''\<rparr>
      in (b, s\<lparr>bookings := bookings s @ [b], bookings_seq := bookings_seq s + 1\<rparr>))"

text \<open>
  \<open>entry_name\<close> is the content of the name field, \<open>selected\<close> the tuple
  \<^verbatim>\<open>route_box.curselection()\<close>, \<open>routes_df\<close> the catalogue. The result is the
  created row with its payload (which the code hands to the symbol renderer), or the reason
  for returning early, and the store afterwards.
\<close>

definition book_ticket ::
  "str \<Rightarrow> nat list \<Rightarrow> route_row list \<Rightarrow> store \<Rightarrow> (error + booking \<times> str) \<times> store" where
  "book_ticket entry_name selected routes_df s =
     (let passenger = strip entry_name in
      if passenger = [] \<or> selected = [] then (Inl ValidationError, s)
      else if \<not> hd selected < length routes_df then (Inl IndexError, s)
      else
        let row = routes_df ! hd selected;
            route_str = BusNo row @ lit '': '' @ Source row @ lit ''-'' @ Destination row;
            (b, s') = insert_booking passenger route_str (Time row) (Fare row) s
        in (Inr (b, qr_data b), s'))"

subsection \<open>Validation (lines 96 to 152)\<close>

text \<open>Lines 96 to 100; \<open>now\<close> is the formatted clock reading of line 97.\<close>

definition add_log :: "float_reader \<Rightarrow> str \<Rightarrow> str \<Rightarrow> str \<Rightarrow> store \<Rightarrow> store" where
  "add_log fp bid meth now s =
     s\<lparr>validation_logs := validation_logs s @
          [\<lparr>log_id = validation_logs_seq s + 1, booking_id = integer_affinity fp bid,
            log_method = meth, timestamp = now\<rparr>],
       validation_logs_seq := validation_logs_seq s + 1\<rparr>"

text \<open>Whether the bound text selects the row with this id in \<^verbatim>\<open>WHERE id=?\<close>: the number
  the text converts to is that integer.\<close>

definition id_matches :: "float_reader \<Rightarrow> str \<Rightarrow> int \<Rightarrow> bool" where
  "id_matches fp bid i = (integer_affinity fp bid = SqlInteger i)"

text \<open>The UPDATE of lines 117 to 119 (and 136 to 138).\<close>

definition update_status :: "float_reader \<Rightarrow> str \<Rightarrow> store \<Rightarrow> store" where
  "update_status fp bid s =
     s\<lparr>bookings := map (\<lambda>b. if id_matches fp bid (rowid b) then b\<lparr>status := lit ''Validated''\<rparr>
                            else b)
                       (bookings s)\<rparr>"

text \<open>Line 116 (and 135).\<close>

definition extract_booking_id :: "str \<Rightarrow> str" where
  "extract_booking_id qr_text = str_delete marker (split_first bar qr_text)"

text \<open>Lines 113 to 116: the marker test and the extraction.\<close>

definition decode_booking_id :: "str \<Rightarrow> error + str" where
  "decode_booking_id qr_text =
     (if \<not> str_contains marker qr_text then Inl FormatError
      else Inr (extract_booking_id qr_text))"

text \<open>
  The statements both entry points share (lines 113 to 120, and 134 to 139): decode, update,
  log. The result is the booking id shown to the user, or the error, and the store afterwards.
\<close>

definition validate ::
  "float_reader \<Rightarrow> str \<Rightarrow> str \<Rightarrow> str \<Rightarrow> store \<Rightarrow> (error + str) \<times> store" where
  "validate fp meth now qr_text s =
     (case decode_booking_id qr_text of
        Inl e \<Rightarrow> (Inl e, s)
      | Inr bid \<Rightarrow> (Inr bid, add_log fp bid meth now (update_status fp bid s)))"

text \<open>
  \<open>chosen\<close> is \<open>None\<close> when the file dialog is dismissed, and otherwise the texts of the
  codes found in the chosen image, in the order the decoder lists them.
\<close>

definition validate_from_image ::
  "float_reader \<Rightarrow> str \<Rightarrow> str list option \<Rightarrow> store \<Rightarrow> (error + str) \<times> store" where
  "validate_from_image fp now chosen s =
     (case chosen of
        None \<Rightarrow> (Inl NoFileChosen, s)
      | Some [] \<Rightarrow> (Inl NoQRCode, s)
      | Some (qr_text # rest) \<Rightarrow> validate fp (lit ''Image'') now qr_text s)"

text \<open>
  The camera session is the list of frames read until \<^verbatim>\<open>cap.read()\<close> fails: for each the
  texts of the codes in it, and whether the key q was down after it was shown. The inner loop
  takes the first text with the marker and stops the session.
\<close>

fun validate_via_webcam ::
  "float_reader \<Rightarrow> str \<Rightarrow> (str list \<times> bool) list \<Rightarrow> store \<Rightarrow> (error + str) \<times> store" where
  "validate_via_webcam fp now [] s = (Inl NoValidQR, s)"
| "validate_via_webcam fp now ((codes, q) # frames) s =
     (case find (str_contains marker) codes of
        Some qr_text \<Rightarrow> validate fp (lit ''Webcam'') now qr_text s
      | None \<Rightarrow> if q then (Inl NoValidQR, s) else validate_via_webcam fp now frames s)"

subsection \<open>Reachable stores\<close>

text \<open>One operation of the program, and the stores a run can reach, with the engine's
  floating-point reader \<open>fp\<close>.\<close>

inductive step :: "float_reader \<Rightarrow> store \<Rightarrow> store \<Rightarrow> bool" for fp where
  book: "step fp s (snd (book_ticket entry_name selected routes_df s))"
| image: "step fp s (snd (validate_from_image fp now chosen s))"
| webcam: "step fp s (snd (validate_via_webcam fp now frames s))"

inductive reachable :: "float_reader \<Rightarrow> store \<Rightarrow> bool" for fp where
  start: "database_setup f = Inr s \<Longrightarrow> reachable fp s"
| next_step: "reachable fp s \<Longrightarrow> step fp s s' \<Longrightarrow> reachable fp s'"

subsection \<open>The decoding as the specification words it\<close>

text \<open>
  For comparison with \<open>decode_booking_id\<close>, the specification's sentence taken by its
  words: the text after the first occurrence of the marker, up to the first bar that follows
  (or to the end), and a format error when the marker does not occur.
\<close>

fun after_marker :: "str \<Rightarrow> str \<Rightarrow> str option" where
  "after_marker m [] = (if m = [] then Some [] else None)"
| "after_marker m (c # cs) =
     (if take (length m) (c # cs) = m then Some (drop (length m) (c # cs))
      else after_marker m cs)"

definition spec_decode :: "str \<Rightarrow> error + str" where
  "spec_decode t =
     (case after_marker marker t of
        None \<Rightarrow> Inl FormatError
      | Some r \<Rightarrow> Inr (split_first bar r))"

text \<open>The row that lines 63 to 73 build and insert, for the name entered and the catalogue row
  selected.\<close>

definition booked_row :: "str \<Rightarrow> route_row \<Rightarrow> store \<Rightarrow> booking" where
  "booked_row e row s =
     \<lparr>rowid = bookings_seq s + 1, passenger = strip e,
      route = BusNo row @ lit '': '' @ Source row @ lit ''-'' @ Destination row,
      time = Time row, fare = Fare row, status = lit ''Booked''\<rparr>"

subsection \<open>The example scenario of the specification\<close>

text \<open>
  Passenger Asha on route 12A from CityX to CityY at 09:00 for 50.0, booked on a fresh store:
  the data on which the statements below are run.
\<close>

definition route_12A :: route_row where
  "route_12A = \<lparr>BusNo = lit ''12A'', Source = lit ''CityX'', Destination = lit ''CityY'',
                 Time = lit ''09:00'', Fare = lit ''50.0''\<rparr>"

definition fresh_store :: store where
  "fresh_store = \<lparr>bookings = [], bookings_seq = 0, validation_logs = [], validation_logs_seq = 0\<rparr>"

definition asha :: booking where
  "asha = \<lparr>rowid = 1, passenger = lit ''Asha'', route = lit ''12A: CityX-CityY'',
            time = lit ''09:00'', fare = lit ''50.0'', status = lit ''Booked''\<rparr>"

definition asha_payload :: str where
  "asha_payload = lit ''BookingID:1|Passenger:Asha|Route:12A: CityX-CityY|Time:09:00|Fare:50.0''"

definition store_booked :: store where
  "store_booked = \<lparr>bookings = [asha], bookings_seq = 1, validation_logs = [],
                    validation_logs_seq = 0\<rparr>"

text \<open>The store after the booking is validated from an image, and then again by the camera.\<close>

definition store_validated :: store where
  "store_validated =
     \<lparr>bookings = [asha\<lparr>status := lit ''Validated''\<rparr>], bookings_seq = 1,
      validation_logs =
        [\<lparr>log_id = 1, booking_id = SqlInteger 1, log_method = lit ''Image'',
          timestamp = lit ''2024-01-01 09:00:00''\<rparr>],
      validation_logs_seq = 1\<rparr>"

definition store_revalidated :: store where
  "store_revalidated =
     \<lparr>bookings = [asha\<lparr>status := lit ''Validated''\<rparr>], bookings_seq = 1,
      validation_logs =
        [\<lparr>log_id = 1, booking_id = SqlInteger 1, log_method = lit ''Image'',
          timestamp = lit ''2024-01-01 09:00:00''\<rparr>,
         \<lparr>log_id = 2, booking_id = SqlInteger 1, log_method = lit ''Webcam'',
          timestamp = lit ''2024-01-01 09:05:00''\<rparr>],
      validation_logs_seq = 2\<rparr>"

text \<open>A file left by an earlier run, with one validated booking and its log row.\<close>

definition old_file :: db_file where
  "old_file =
     \<lparr>bookings_table = Some ([asha\<lparr>status := lit ''Validated''\<rparr>], 1),
      validation_logs_table =
        Some ([\<lparr>log_id = 1, booking_id = SqlInteger 1, log_method = lit ''Image'',
                 timestamp = lit ''2024-01-01 09:00:00''\<rparr>], 1)\<rparr>"

text \<open>
  A floating-point reader for the examples, which reads three texts as SQLite does:
  \<^verbatim>\<open>1.0\<close> is the integer 1, \<^verbatim>\<open>2.0\<close> is the integer 2 and \<^verbatim>\<open>1.5\<close> is a REAL.
\<close>

definition sample_reader :: float_reader where
  "sample_reader t =
     (if t = lit ''1.0'' then SqlInteger 1
      else if t = lit ''2.0'' then SqlInteger 2
      else if t = lit ''1.5'' then SqlReal t
      else SqlText t)"

section \<open>Facts about the text operations\<close>

lemma str_contains_iff: "str_contains sub s \<longleftrightarrow> (\<exists>p q. s = p @ sub @ q)"
proof (induction s)
  case Nil
  then show ?case by auto
next
  case (Cons c cs)
  show ?case
  proof
    assume "str_contains sub (c # cs)"
    then consider "take (length sub) (c # cs) = sub" | "str_contains sub cs" by auto
    then show "\<exists>p q. c # cs = p @ sub @ q"
    proof cases
      case 1
      then have "c # cs = [] @ sub @ drop (length sub) (c # cs)"
        by (metis append_Nil append_take_drop_id)
      then show ?thesis by blast
    next
      case 2
      then obtain p q where "cs = p @ sub @ q" using Cons.IH by blast
      then have "c # cs = (c # p) @ sub @ q" by simp
      then show ?thesis by blast
    qed
  next
    assume "\<exists>p q. c # cs = p @ sub @ q"
    then obtain p q where pq: "c # cs = p @ sub @ q" by blast
    show "str_contains sub (c # cs)"
    proof (cases p)
      case Nil
      then have "take (length sub) (c # cs) = sub" using pq by simp
      then show ?thesis by simp
    next
      case (Cons a p')
      then have "cs = p' @ sub @ q" using pq by simp
      then show ?thesis using Cons.IH by auto
    qed
  qed
qed

lemma str_delete_prefix:
  "old \<noteq> [] \<Longrightarrow> str_delete old (old @ r) = str_delete old r"
  by (cases old) auto

lemma str_delete_absent:
  "\<not> str_contains old s \<Longrightarrow> str_delete old s = s"
  by (induction s) auto

lemma str_contains_hd:
  "str_contains old s \<Longrightarrow> old \<noteq> [] \<Longrightarrow> hd old \<in> set s"
proof (induction s)
  case Nil
  then show ?case by simp
next
  case (Cons c cs)
  show ?case
  proof (cases "take (length old) (c # cs) = old")
    case True
    with Cons.prems(2) have "hd old = c" by (cases old) auto
    then show ?thesis by simp
  next
    case False
    with Cons show ?thesis by auto
  qed
qed

lemma split_first_append:
  "sep \<notin> set a \<Longrightarrow> split_first sep (a @ sep # r) = a"
  by (induction a) (auto simp: split_first_def)

lemma split_first_none:
  "sep \<notin> set a \<Longrightarrow> split_first sep a = a"
  by (induction a) (auto simp: split_first_def)

lemma marker_not_Nil: "marker \<noteq> []"
  by (simp add: marker_def lit_def)

lemma bar_not_in_marker: "bar \<notin> set marker"
  by (simp add: marker_def lit_def bar_def)

lemma hd_marker: "hd marker = of_char CHR ''B''"
  by (simp add: marker_def lit_def)

lemma str_contains_marker_prefix: "str_contains marker (marker @ r)"
  by (simp add: str_contains_iff) (metis append_Nil)

lemma isdigit_str_digit: "d < 10 \<Longrightarrow> isdigit (48 + d)"
  by (simp add: isdigit_def)

lemma str_nat_not_Nil: "str_nat n \<noteq> []"
  by (subst str_nat.simps) simp

lemma str_nat_digits: "list_all isdigit (str_nat n)"
proof (induction n rule: str_nat.induct)
  case (1 n)
  show ?case
  proof (cases "n < 10")
    case True
    then show ?thesis by (subst str_nat.simps) (simp add: isdigit_str_digit)
  next
    case False
    then show ?thesis using 1 by (subst str_nat.simps) (simp add: isdigit_str_digit)
  qed
qed

lemma digits_value_snoc:
  "digits_value (ds @ [c]) = 10 * digits_value ds + (c - 48)"
  by (simp add: digits_value_def)

lemma digits_value_str_nat: "digits_value (str_nat n) = n"
proof (induction n rule: str_nat.induct)
  case (1 n)
  show ?case
  proof (cases "n < 10")
    case True
    then show ?thesis
      by (subst str_nat.simps) (simp add: digits_value_def)
  next
    case False
    then have "digits_value (str_nat (n div 10)) = n div 10" using 1 by simp
    with False show ?thesis
      by (subst str_nat.simps) (simp add: digits_value_snoc)
  qed
qed

lemma unsigned_of_text_str_nat: "unsigned_of_text (str_nat n) = Some n"
  by (simp add: unsigned_of_text_def str_nat_not_Nil str_nat_digits digits_value_str_nat)

lemma isdigit_not_space: "isdigit c \<Longrightarrow> \<not> sqlite_isspace c"
  by (auto simp: isdigit_def sqlite_isspace_def)

lemma isdigit_not_sign: "isdigit c \<Longrightarrow> c \<noteq> of_char CHR ''-'' \<and> c \<noteq> of_char CHR ''+''"
  by (auto simp: isdigit_def)

lemma trim_unchanged:
  "s \<noteq> [] \<Longrightarrow> \<not> P (hd s) \<Longrightarrow> \<not> P (last s) \<Longrightarrow> rev (dropWhile P (rev (dropWhile P s))) = s"
proof -
  assume a: "s \<noteq> []" "\<not> P (hd s)" "\<not> P (last s)"
  then have "dropWhile P s = s" by (cases s) auto
  moreover from a have "dropWhile P (rev s) = rev s"
    by (cases "rev s") (auto simp: last_rev hd_rev[symmetric] dest: arg_cong[where f=hd])
  ultimately show ?thesis by simp
qed

lemma str_nat_hd_last: "isdigit (hd (str_nat n)) \<and> isdigit (last (str_nat n))"
  using str_nat_digits[of n] str_nat_not_Nil[of n]
  by (auto simp: list_all_iff)

lemma integer_of_text_str_int: "integer_of_text (str_int i) = Some i"
proof (cases "i < 0")
  case True
  let ?ds = "str_nat (nat (- i))"
  have "rev (dropWhile sqlite_isspace (rev (dropWhile sqlite_isspace (of_char CHR ''-'' # ?ds))))
          = of_char CHR ''-'' # ?ds"
    using str_nat_hd_last[of "nat (- i)"] str_nat_not_Nil[of "nat (- i)"]
    by (intro trim_unchanged) (auto simp: isdigit_def sqlite_isspace_def)
  with True show ?thesis
    by (simp add: integer_of_text_def str_int_def unsigned_of_text_str_nat)
next
  case False
  let ?ds = "str_nat (nat i)"
  obtain c cs where cs: "?ds = c # cs" using str_nat_not_Nil[of "nat i"] by (cases ?ds) auto
  have dc: "isdigit c" using str_nat_hd_last[of "nat i"] cs by simp
  have "rev (dropWhile sqlite_isspace (rev (dropWhile sqlite_isspace ?ds))) = ?ds"
    using str_nat_hd_last[of "nat i"] str_nat_not_Nil[of "nat i"]
    by (intro trim_unchanged) (auto simp: isdigit_not_space)
  moreover have "unsigned_of_text (c # cs) = Some (nat i)"
    using unsigned_of_text_str_nat[of "nat i"] cs by simp
  ultimately show ?thesis using False cs isdigit_not_sign[OF dc]
    by (simp add: integer_of_text_def str_int_def)
qed

lemma str_int_chars: "c \<in> set (str_int i) \<Longrightarrow> isdigit c \<or> c = of_char CHR ''-''"
  using str_nat_digits by (auto simp: str_int_def list_all_iff split: if_splits)

lemma bar_not_in_str_int: "bar \<notin> set (str_int i)"
  using str_int_chars[of bar i] by (auto simp: isdigit_def bar_def)

lemma B_not_in_str_int: "of_char CHR ''B'' \<notin> set (str_int i)"
  using str_int_chars[of "of_char CHR ''B''" i] by (auto simp: isdigit_def)

lemma extract_qr_data: "extract_booking_id (qr_data b) = str_int (rowid b)"
proof -
  let ?rest = "lit ''Passenger:'' @ passenger b @ lit ''|Route:'' @ route b
       @ lit ''|Time:'' @ time b @ lit ''|Fare:'' @ fare b"
  have "bar \<notin> set (marker @ str_int (rowid b))"
    using bar_not_in_str_int bar_not_in_marker by simp
  then have "split_first bar ((marker @ str_int (rowid b)) @ bar # ?rest) = marker @ str_int (rowid b)"
    by (rule split_first_append)
  moreover have "qr_data b = (marker @ str_int (rowid b)) @ bar # ?rest"
    by (simp add: qr_data_def bar_def lit_def)
  ultimately have "split_first bar (qr_data b) = marker @ str_int (rowid b)"
    by simp
  moreover have "str_delete marker (marker @ str_int (rowid b)) = str_delete marker (str_int (rowid b))"
    using marker_not_Nil by (rule str_delete_prefix)
  moreover have "\<not> str_contains marker (str_int (rowid b))"
    using str_contains_hd[of marker "str_int (rowid b)"] B_not_in_str_int marker_not_Nil hd_marker
    by auto
  ultimately show ?thesis by (simp add: extract_booking_id_def str_delete_absent)
qed

lemma contains_qr_data: "str_contains marker (qr_data b)"
  unfolding qr_data_def by (rule str_contains_marker_prefix)

lemma split_first_marker:
  "split_first bar (marker @ r) = marker @ split_first bar r"
  by (simp add: split_first_def marker_def lit_def bar_def)

section \<open>The code codec\<close>

text \<open>
  Claim C6. Decoding fails with the format error exactly when the text does not contain the
  marker \<^verbatim>\<open>BookingID:\<close>, that is, when it cannot be cut as a text, the marker, a text. The
  text \<^verbatim>\<open>garbage\<close> fails. The same holds where the image path calls the decoding.
\<close>

theorem decode_format_error_iff:
  "(decode_booking_id t = Inl FormatError) = (\<not> (\<exists>p q. t = p @ lit ''BookingID:'' @ q))
   \<and> decode_booking_id (lit ''garbage'') = Inl FormatError
   \<and> (fst (validate_from_image fp now (Some (t # rest)) s) = Inl FormatError)
       = (\<not> (\<exists>p q. t = p @ lit ''BookingID:'' @ q))"
proof -
  have a: "(decode_booking_id t = Inl FormatError) = (\<not> str_contains marker t)"
    by (simp add: decode_booking_id_def)
  have b: "decode_booking_id (lit ''garbage'') = Inl FormatError"
    by (simp add: decode_booking_id_def marker_def lit_def)
  have c: "(fst (validate_from_image fp now (Some (t # rest)) s) = Inl FormatError)
             = (\<not> str_contains marker t)"
    by (simp add: validate_from_image_def validate_def decode_booking_id_def)
  show ?thesis using a b c by (simp only: str_contains_iff marker_def)
qed

text \<open>
  Claim C2. For every booking row, decoding the payload that encodes it gives the row's id, as
  the decimal text of that id; bound to the query that text selects the id of the row and no
  other, whatever the engine's floating-point reader.
\<close>

theorem decode_qr_data_roundtrip:
  "decode_booking_id (qr_data b) = Inr (str_int (rowid b))
   \<and> (\<forall>i. id_matches fp (str_int (rowid b)) i = (i = rowid b))"
  by (auto simp: decode_booking_id_def contains_qr_data extract_qr_data id_matches_def
        integer_affinity_def integer_of_text_str_int)

lemma after_marker_prefix: "after_marker marker (marker @ r) = Some r"
  by (simp add: marker_def lit_def)

text \<open>
  Claim C1, as stated, fails. The text \<^verbatim>\<open>Seat:4|BookingID:7|Fare:5\<close> contains the marker,
  and the substring between the marker and the first bar after it is \<^verbatim>\<open>7\<close>; line 116 cuts
  the text at its first bar wherever the marker stands, and returns \<^verbatim>\<open>Seat:4\<close>.
\<close>

theorem decode_marker_after_bar_counterexample:
  "str_contains (lit ''BookingID:'') (lit ''Seat:4|BookingID:7|Fare:5'')
   \<and> spec_decode (lit ''Seat:4|BookingID:7|Fare:5'') = Inr (lit ''7'')
   \<and> decode_booking_id (lit ''Seat:4|BookingID:7|Fare:5'') = Inr (lit ''Seat:4'')
   \<and> decode_booking_id (lit ''Seat:4|BookingID:7|Fare:5'')
       \<noteq> spec_decode (lit ''Seat:4|BookingID:7|Fare:5'')"
  by (simp add: spec_decode_def decode_booking_id_def extract_booking_id_def split_first_def
        marker_def lit_def bar_def)

text \<open>
  Claim C1, amended. For every text that contains the marker, decoding returns the part of the
  text before its first bar (the whole text when it has none) with every occurrence of the
  marker deleted. When the text begins with the marker and the marker does not occur again
  before the first bar, this is the substring between the marker and the first bar that
  follows it (or the end of the text), as the specification words it.
\<close>

theorem decode_booking_id_extracts:
  "(str_contains marker t \<longrightarrow>
      decode_booking_id t = Inr (str_delete marker (split_first bar t)))
   \<and> (\<not> str_contains marker (split_first bar r) \<longrightarrow>
      decode_booking_id (marker @ r) = Inr (split_first bar r)
      \<and> spec_decode (marker @ r) = Inr (split_first bar r))"
proof -
  have a: "str_contains marker t \<longrightarrow> decode_booking_id t = Inr (str_delete marker (split_first bar t))"
    by (simp add: decode_booking_id_def extract_booking_id_def)
  have c: "str_contains marker (marker @ r)" by (rule str_contains_marker_prefix)
  have d: "str_delete marker (marker @ split_first bar r) = str_delete marker (split_first bar r)"
    using marker_not_Nil by (rule str_delete_prefix)
  have e: "spec_decode (marker @ r) = Inr (split_first bar r)"
    unfolding spec_decode_def by (simp only: after_marker_prefix option.case)
  have b: "\<not> str_contains marker (split_first bar r) \<longrightarrow>
      decode_booking_id (marker @ r) = Inr (split_first bar r)"
    using c d by (simp only: decode_booking_id_def extract_booking_id_def split_first_marker)
       (simp add: str_delete_absent)
  show ?thesis using a b e by blast
qed

theorem decode_booking_id_extracts_witness:
  "marker = lit ''BookingID:'' \<and> bar = of_char CHR ''|''
   \<and> str_contains marker (lit ''BookingID:12|Passenger:Asha'')
   \<and> \<not> str_contains marker (split_first bar (lit ''12|Passenger:Asha''))
   \<and> split_first bar (lit ''12|Passenger:Asha'') = lit ''12''
   \<and> decode_booking_id (marker @ lit ''12|Passenger:Asha'') = Inr (lit ''12'')
   \<and> spec_decode (marker @ lit ''12|Passenger:Asha'') = Inr (lit ''12'')"
proof -
  have h0: "marker = lit ''BookingID:''" "bar = of_char CHR ''|''"
    by (simp_all add: marker_def lit_def bar_def)
  have h1: "str_contains marker (lit ''BookingID:12|Passenger:Asha'')"
    by (simp add: marker_def lit_def)
  have e: "split_first bar (lit ''12|Passenger:Asha'') = lit ''12''"
    by (simp add: split_first_def bar_def lit_def)
  have h2: "\<not> str_contains marker (split_first bar (lit ''12|Passenger:Asha''))"
    unfolding e by (simp add: marker_def lit_def)
  from decode_booking_id_extracts [of "lit ''BookingID:12|Passenger:Asha''" "lit ''12|Passenger:Asha''"] h2
  have "decode_booking_id (marker @ lit ''12|Passenger:Asha'')
          = Inr (split_first bar (lit ''12|Passenger:Asha''))
        \<and> spec_decode (marker @ lit ''12|Passenger:Asha'')
          = Inr (split_first bar (lit ''12|Passenger:Asha''))"
    by blast
  then have "decode_booking_id (marker @ lit ''12|Passenger:Asha'') = Inr (lit ''12'')
        \<and> spec_decode (marker @ lit ''12|Passenger:Asha'') = Inr (lit ''12'')"
    by (simp only: e)
  then show ?thesis using h0 h1 h2 e by blast
qed

section \<open>Facts about the store operations\<close>

lemma dropWhile_all: "(\<forall>x\<in>set (dropWhile P xs). P x) = (\<forall>x\<in>set xs. P x)"
proof
  assume a: "\<forall>x\<in>set (dropWhile P xs). P x"
  have "dropWhile P xs = []"
  proof (rule ccontr)
    assume n: "dropWhile P xs \<noteq> []"
    then have "\<not> P (hd (dropWhile P xs))" by (rule hd_dropWhile)
    moreover have "hd (dropWhile P xs) \<in> set (dropWhile P xs)" using n by simp
    ultimately show False using a by blast
  qed
  then show "\<forall>x\<in>set xs. P x" by (simp add: dropWhile_eq_Nil_conv)
next
  assume "\<forall>x\<in>set xs. P x"
  then show "\<forall>x\<in>set (dropWhile P xs). P x" by (auto dest: set_dropWhileD)
qed

lemma strip_empty_iff: "(strip e = []) = list_all isspace e"
  by (simp add: strip_def list_all_iff dropWhile_eq_Nil_conv dropWhile_all)

lemma last_dropWhile: "dropWhile P xs \<noteq> [] \<Longrightarrow> last (dropWhile P xs) = last xs"
  by (induction xs) (auto split: if_splits)

lemma strip_ends:
  assumes "strip e \<noteq> []"
  shows "\<not> isspace (hd (strip e)) \<and> \<not> isspace (last (strip e))"
proof -
  let ?d = "dropWhile isspace e"
  let ?r = "dropWhile isspace (rev ?d)"
  have r: "?r \<noteq> []" using assms by (simp add: strip_def)
  then have d: "?d \<noteq> []" by (cases ?d) simp_all
  have "last (strip e) = hd ?r" using r by (simp add: strip_def last_rev)
  moreover have "\<not> isspace (hd ?r)" using r by (rule hd_dropWhile)
  moreover have "hd (strip e) = last ?r" using r by (simp add: strip_def hd_rev)
  moreover have "last ?r = last (rev ?d)" using r by (rule last_dropWhile)
  moreover have "last (rev ?d) = hd ?d" using d by (simp add: last_rev)
  moreover have "\<not> isspace (hd ?d)" using d by (rule hd_dropWhile)
  ultimately show ?thesis by simp
qed

text \<open>The stripped text is the text itself with a run of white space taken off each end.\<close>

lemma strip_cut:
  "\<exists>l r. e = l @ strip e @ r \<and> list_all isspace l \<and> list_all isspace r"
proof -
  let ?l = "takeWhile isspace e"
  let ?d = "dropWhile isspace e"
  let ?t = "takeWhile isspace (rev ?d)"
  have "rev (?t @ dropWhile isspace (rev ?d)) = ?d"
    by (simp only: takeWhile_dropWhile_id rev_rev_ident)
  then have d: "?d = strip e @ rev ?t" by (simp only: rev_append strip_def)
  have "e = ?l @ ?d" by simp
  with d have "e = ?l @ strip e @ rev ?t" by simp
  moreover have "list_all isspace ?l" by (simp add: list_all_iff) (metis set_takeWhileD)
  moreover have "list_all isspace (rev ?t)" by (simp add: list_all_iff) (metis set_takeWhileD)
  ultimately show ?thesis by blast
qed

text \<open>There is only one way to cut white space off both ends and leave a text that neither
  begins nor ends with white space.\<close>

lemma cut_unique:
  assumes "l @ x @ r = l' @ x' @ r'"
    and "list_all isspace l" "list_all isspace r" "list_all isspace l'" "list_all isspace r'"
    and "x \<noteq> []" "\<not> isspace (hd x)" "\<not> isspace (last x)"
    and "x' \<noteq> []" "\<not> isspace (hd x')" "\<not> isspace (last x')"
  shows "x = x'"
proof -
  have front: "dropWhile isspace (a @ y @ b) = y @ b"
    if "list_all isspace a" "y \<noteq> []" "\<not> isspace (hd y)" for a y b
    using that by (cases y) (auto simp: list_all_iff dropWhile_append)
  have 1: "x @ r = x' @ r'"
    using front[OF assms(2) assms(6) assms(7), of r] front[OF assms(4) assms(9) assms(10), of r']
      assms(1) by simp
  have rear: "dropWhile isspace (rev (y @ b)) = rev y"
    if "list_all isspace b" "y \<noteq> []" "\<not> isspace (last y)" for y b
  proof -
    have "rev y \<noteq> []" "\<not> isspace (hd (rev y))" using that by (simp_all add: hd_rev)
    then have "dropWhile isspace (rev b @ rev y) = rev y"
      using that(1) by (cases "rev y") (auto simp: list_all_iff dropWhile_append)
    then show ?thesis by simp
  qed
  have "rev x = rev x'"
    using rear[OF assms(3) assms(6) assms(8)] rear[OF assms(5) assms(9) assms(11)] 1 by simp
  then show ?thesis by simp
qed

lemma book_ticket_rejects:
  "strip e = [] \<or> sel = [] \<Longrightarrow> book_ticket e sel rs s = (Inl ValidationError, s)"
  by (auto simp: book_ticket_def)

lemma book_ticket_accepts:
  "strip e \<noteq> [] \<Longrightarrow> sel \<noteq> [] \<Longrightarrow> hd sel < length rs \<Longrightarrow>
   book_ticket e sel rs s =
     (Inr (booked_row e (rs ! hd sel) s, qr_data (booked_row e (rs ! hd sel) s)),
      s\<lparr>bookings := bookings s @ [booked_row e (rs ! hd sel) s],
        bookings_seq := bookings_seq s + 1\<rparr>)"
  by (simp add: book_ticket_def insert_booking_def booked_row_def Let_def)

lemma book_ticket_Inr:
  assumes "book_ticket e sel rs s = (Inr (b, p), s')"
  shows "strip e \<noteq> [] \<and> sel \<noteq> [] \<and> hd sel < length rs
         \<and> b = booked_row e (rs ! hd sel) s \<and> p = qr_data b
         \<and> s' = s\<lparr>bookings := bookings s @ [b], bookings_seq := bookings_seq s + 1\<rparr>"
proof -
  have 1: "\<not> (strip e = [] \<or> sel = [])"
    using assms book_ticket_rejects[of e sel rs s] by auto
  have 2: "hd sel < length rs"
    using assms 1 by (auto simp: book_ticket_def Let_def split: if_splits)
  show ?thesis using assms 1 2 book_ticket_accepts[of e sel rs s] by auto
qed

lemma book_ticket_snd:
  "snd (book_ticket e sel rs s) = s
   \<or> (strip e \<noteq> [] \<and> snd (book_ticket e sel rs s) =
        s\<lparr>bookings := bookings s @ [booked_row e (rs ! hd sel) s],
          bookings_seq := bookings_seq s + 1\<rparr>)"
proof (cases "strip e = [] \<or> sel = []")
  case True
  then show ?thesis by (simp add: book_ticket_rejects)
next
  case False
  show ?thesis
  proof (cases "hd sel < length rs")
    case True
    with False show ?thesis by (simp add: book_ticket_accepts)
  next
    case False
    then show ?thesis by (simp add: book_ticket_def Let_def)
  qed
qed

lemma validate_snd:
  "snd (validate fp m now t s) = s
   \<or> snd (validate fp m now t s)
       = add_log fp (extract_booking_id t) m now (update_status fp (extract_booking_id t) s)"
  by (simp add: validate_def decode_booking_id_def)

lemma validate_from_image_snd:
  "snd (validate_from_image fp now ch s) = s
   \<or> (\<exists>bid m. snd (validate_from_image fp now ch s) = add_log fp bid m now (update_status fp bid s))"
proof (cases ch)
  case None
  then show ?thesis by (simp add: validate_from_image_def)
next
  case (Some codes)
  show ?thesis
  proof (cases codes)
    case Nil
    with Some show ?thesis by (simp add: validate_from_image_def)
  next
    case (Cons t rest)
    with Some have "snd (validate_from_image fp now ch s) = snd (validate fp (lit ''Image'') now t s)"
      by (simp add: validate_from_image_def)
    then show ?thesis using validate_snd[of fp "lit ''Image''" now t s] by metis
  qed
qed

lemma validate_via_webcam_snd:
  "snd (validate_via_webcam fp now frames s) = s
   \<or> (\<exists>bid m. snd (validate_via_webcam fp now frames s) = add_log fp bid m now (update_status fp bid s))"
proof (induction frames)
  case Nil
  then show ?case by simp
next
  case (Cons fr frames)
  obtain codes q where fr: "fr = (codes, q)" by (cases fr)
  show ?case
  proof (cases "find (str_contains marker) codes")
    case None
    then show ?thesis using Cons fr by auto
  next
    case (Some t)
    then have "snd (validate_via_webcam fp now (fr # frames) s) = snd (validate fp (lit ''Webcam'') now t s)"
      using fr by simp
    then show ?thesis using validate_snd[of fp "lit ''Webcam''" now t s] by metis
  qed
qed

lemma step_cases:
  assumes "step fp s s'"
  shows "s' = s
    \<or> (\<exists>e row. strip e \<noteq> [] \<and> s' = s\<lparr>bookings := bookings s @ [booked_row e row s],
                                         bookings_seq := bookings_seq s + 1\<rparr>)
    \<or> (\<exists>bid m now. s' = add_log fp bid m now (update_status fp bid s))"
  using assms
proof cases
  case (book e sel rs)
  then show ?thesis using book_ticket_snd[of e sel rs s] by blast
next
  case (image now ch)
  then show ?thesis using validate_from_image_snd[of fp now ch s] by blast
next
  case (webcam now frames)
  then show ?thesis using validate_via_webcam_snd[of fp now frames s] by blast
qed

lemma database_setup_eq:
  "database_setup f =
     Inr \<lparr>bookings = [], bookings_seq = 0, validation_logs = [], validation_logs_seq = 0\<rparr>"
  by (simp add: database_setup_def create_bookings_def create_validation_logs_def
        drop_bookings_def drop_validation_logs_def open_store_def)

lemma bookings_validated:
  "bookings (add_log fp bid m now (update_status fp bid' s)) =
     map (\<lambda>b. if id_matches fp bid' (rowid b) then b\<lparr>status := lit ''Validated''\<rparr> else b)
       (bookings s)"
  by (simp add: add_log_def update_status_def)

lemma bookings_seq_validated:
  "bookings_seq (add_log fp bid m now (update_status fp bid' s)) = bookings_seq s"
  by (simp add: add_log_def update_status_def)

lemma reachable_seq:
  assumes "reachable fp s"
  shows "0 \<le> bookings_seq s"
  using assms
proof (induction rule: reachable.induct)
  case (start f s)
  then show ?case by (auto simp: database_setup_eq)
next
  case (next_step s s')
  from step_cases[OF next_step.hyps(2)] next_step.IH show ?case
    by (auto simp: bookings_seq_validated)
qed

lemma reachable_rows:
  assumes "reachable fp s" and "b \<in> set (bookings s)"
  shows "(status b = lit ''Booked'' \<or> status b = lit ''Validated'')
         \<and> passenger b \<noteq> [] \<and> \<not> isspace (hd (passenger b)) \<and> \<not> isspace (last (passenger b))
         \<and> 1 \<le> rowid b \<and> rowid b \<le> bookings_seq s"
  using assms
proof (induction arbitrary: b rule: reachable.induct)
  case (start f s)
  then show ?case by (auto simp: database_setup_eq)
next
  case (next_step s s')
  from step_cases[OF next_step.hyps(2)]
  consider "s' = s"
    | e row where "strip e \<noteq> []"
        "s' = s\<lparr>bookings := bookings s @ [booked_row e row s], bookings_seq := bookings_seq s + 1\<rparr>"
    | bid m now where "s' = add_log fp bid m now (update_status fp bid s)"
    by blast
  then show ?case
  proof cases
    case 1
    then show ?thesis using next_step by simp
  next
    case 2
    show ?thesis
    proof (cases "b \<in> set (bookings s)")
      case True
      then show ?thesis using next_step.IH[of b] 2 by simp
    next
      case False
      then have "b = booked_row e row s" using next_step.prems 2 by simp
      moreover have "0 \<le> bookings_seq s" using next_step.hyps(1) by (rule reachable_seq)
      ultimately show ?thesis using strip_ends[OF 2(1)] 2 by (simp add: booked_row_def)
    qed
  next
    case 3
    then obtain b0 where b0: "b0 \<in> set (bookings s)"
        "b = b0 \<or> b = b0\<lparr>status := lit ''Validated''\<rparr>"
      using next_step.prems by (auto simp: bookings_validated split: if_splits)
    then show ?thesis using next_step.IH[of b0] 3 by (auto simp: bookings_seq_validated)
  qed
qed

section \<open>The example scenario, run\<close>

lemma str_int_1: "str_int 1 = lit ''1''"
  by code_simp

lemma strip_Asha: "strip (lit ''Asha'') = lit ''Asha''"
  by (simp add: strip_def isspace_def lit_def)

lemma qr_data_asha: "qr_data asha = asha_payload"
  by (simp add: qr_data_def asha_def asha_payload_def str_int_1 marker_def lit_def)

lemma book_asha:
  "book_ticket (lit ''Asha'') [0] [route_12A] fresh_store = (Inr (asha, asha_payload), store_booked)"
  by (simp add: book_ticket_def insert_booking_def strip_Asha route_12A_def fresh_store_def
        store_booked_def qr_data_asha [symmetric] Let_def)
     (simp add: asha_def lit_def)

lemma reachable_fresh: "reachable fp fresh_store"
  using reachable.start[of old_file fresh_store fp] by (simp add: database_setup_eq fresh_store_def)

lemma reachable_booked: "reachable fp store_booked"
proof -
  have "step fp fresh_store (snd (book_ticket (lit ''Asha'') [0] [route_12A] fresh_store))"
    by (rule step.book)
  then have "step fp fresh_store store_booked" by (simp add: book_asha)
  with reachable_fresh show ?thesis by (rule reachable.next_step)
qed

section \<open>Startup\<close>

text \<open>
  Claim C10. Whatever the database file holds when the program starts, the setup of lines 17
  to 40 drops both tables and creates them again, so the store it leaves has no booking and no
  validation log, and numbering starts over: the first booking made on it has id 1 and the
  first log row has log id 1.
\<close>

theorem database_setup_fresh:
  "database_setup f =
     Inr \<lparr>bookings = [], bookings_seq = 0, validation_logs = [], validation_logs_seq = 0\<rparr>
   \<and> (\<forall>s e sel rs b p s'.
        database_setup f = Inr s \<and> book_ticket e sel rs s = (Inr (b, p), s') \<longrightarrow> rowid b = 1)
   \<and> (\<forall>s fp bid m now.
        database_setup f = Inr s \<longrightarrow> map log_id (validation_logs (add_log fp bid m now s)) = [1])"
proof -
  have "rowid b = 1"
    if "database_setup f = Inr s" "book_ticket e sel rs s = (Inr (b, p), s')"
    for s e sel rs b p s'
    using that book_ticket_Inr[of e sel rs s b p s']
    by (auto simp: database_setup_eq booked_row_def)
  moreover have "map log_id (validation_logs (add_log fp bid m now s)) = [1]"
    if "database_setup f = Inr s" for s fp bid m now
    using that by (auto simp: database_setup_eq add_log_def)
  ultimately show ?thesis using database_setup_eq[of f] by blast
qed

theorem database_setup_fresh_witness:
  "database_setup old_file = Inr fresh_store
   \<and> book_ticket (lit ''Asha'') [0] [route_12A] fresh_store
       = (Inr (asha, asha_payload), store_booked)
   \<and> rowid asha = 1
   \<and> map log_id
        (validation_logs (add_log sample_reader (lit ''1'') (lit ''Image'') (lit ''t'') fresh_store))
       = [1]"
proof -
  have h1: "database_setup old_file = Inr fresh_store"
    by (simp add: database_setup_eq fresh_store_def)
  note h2 = book_asha
  from database_setup_fresh[of old_file] h1 h2 have "rowid asha = 1" by blast
  moreover from database_setup_fresh[of old_file] h1
  have "map log_id
        (validation_logs (add_log sample_reader (lit ''1'') (lit ''Image'') (lit ''t'') fresh_store))
       = [1]" by blast
  ultimately show ?thesis using h1 h2 by blast
qed

section \<open>Booking\<close>

lemma strip_blank: "strip (lit '' '') = []"
  by (simp add: strip_def isspace_def lit_def)

text \<open>
  Claim C5, as stated, fails. With a name of one blank and the first route selected, the name is
  not empty and a route is selected, yet line 65 tests the stripped name and nothing is
  booked.
\<close>

theorem book_ticket_blank_name_counterexample:
  "lit '' '' \<noteq> [] \<and> [0::nat] \<noteq> [] \<and> hd [0::nat] < length [route_12A]
   \<and> book_ticket (lit '' '') [0] [route_12A] fresh_store = (Inl ValidationError, fresh_store)"
  by (simp add: book_ticket_def strip_blank) (simp add: lit_def)

text \<open>
  Claim C5, amended. Booking fails with the validation error and leaves the store as it was
  whenever the passenger name is empty once surrounding white space is stripped, or no route
  is selected. Otherwise, the selection pointing into the catalogue, it appends one booking
  row with status Booked, with the stripped name and the next id, and yields that row with
  the payload that encodes it; in a reachable store the id is one no row has yet.
\<close>

theorem book_ticket_outcome:
  "(strip e = [] \<or> sel = [] \<longrightarrow> book_ticket e sel rs s = (Inl ValidationError, s))
   \<and> (strip e \<noteq> [] \<and> sel \<noteq> [] \<and> hd sel < length rs \<longrightarrow>
        (\<exists>b. book_ticket e sel rs s =
               (Inr (b, qr_data b),
                s\<lparr>bookings := bookings s @ [b], bookings_seq := bookings_seq s + 1\<rparr>)
           \<and> status b = lit ''Booked'' \<and> passenger b = strip e
           \<and> rowid b = bookings_seq s + 1
           \<and> (reachable fp s \<longrightarrow> rowid b \<notin> rowid ` set (bookings s))))"
proof -
  have a: "strip e = [] \<or> sel = [] \<longrightarrow> book_ticket e sel rs s = (Inl ValidationError, s)"
    using book_ticket_rejects[of e sel rs s] by blast
  have b: "\<exists>b. book_ticket e sel rs s =
               (Inr (b, qr_data b),
                s\<lparr>bookings := bookings s @ [b], bookings_seq := bookings_seq s + 1\<rparr>)
           \<and> status b = lit ''Booked'' \<and> passenger b = strip e
           \<and> rowid b = bookings_seq s + 1
           \<and> (reachable fp s \<longrightarrow> rowid b \<notin> rowid ` set (bookings s))"
    if h: "strip e \<noteq> []" "sel \<noteq> []" "hd sel < length rs"
  proof -
    let ?b = "booked_row e (rs ! hd sel) s"
    have fresh: "rowid ?b \<notin> rowid ` set (bookings s)" if "reachable fp s"
    proof
      assume "rowid ?b \<in> rowid ` set (bookings s)"
      then obtain r where r: "r \<in> set (bookings s)" "rowid r = rowid ?b" by auto
      from reachable_rows[OF that r(1)] have "rowid r \<le> bookings_seq s" by simp
      with r(2) show False by (simp add: booked_row_def)
    qed
    have "book_ticket e sel rs s =
               (Inr (?b, qr_data ?b),
                s\<lparr>bookings := bookings s @ [?b], bookings_seq := bookings_seq s + 1\<rparr>)"
      using h by (rule book_ticket_accepts)
    moreover have "status ?b = lit ''Booked'' \<and> passenger ?b = strip e
                   \<and> rowid ?b = bookings_seq s + 1"
      by (simp add: booked_row_def)
    ultimately show ?thesis using fresh by blast
  qed
  show ?thesis using a b by blast
qed

theorem book_ticket_outcome_witness:
  "strip (lit '' '') = []
   \<and> book_ticket (lit '' '') [0] [route_12A] store_booked = (Inl ValidationError, store_booked)
   \<and> strip (lit ''Asha'') \<noteq> [] \<and> [0::nat] \<noteq> [] \<and> hd [0::nat] < length [route_12A]
   \<and> reachable sample_reader store_booked
   \<and> (\<exists>b. book_ticket (lit ''Asha'') [0] [route_12A] store_booked =
               (Inr (b, qr_data b),
                store_booked\<lparr>bookings := bookings store_booked @ [b],
                              bookings_seq := bookings_seq store_booked + 1\<rparr>)
           \<and> status b = lit ''Booked'' \<and> passenger b = strip (lit ''Asha'')
           \<and> rowid b = bookings_seq store_booked + 1
           \<and> rowid b \<notin> rowid ` set (bookings store_booked))"
proof -
  have h1: "strip (lit '' '') = []" by (rule strip_blank)
  have h2: "strip (lit ''Asha'') \<noteq> []" by (simp add: strip_Asha) (simp add: lit_def)
  have h3: "[0::nat] \<noteq> []" by simp
  have h4: "hd [0::nat] < length [route_12A]" by simp
  have h5: "reachable sample_reader store_booked" by (rule reachable_booked)
  from book_ticket_outcome[of "lit '' ''" "[0]" "[route_12A]" store_booked] h1
  have c1: "book_ticket (lit '' '') [0] [route_12A] store_booked = (Inl ValidationError, store_booked)"
    by blast
  from book_ticket_outcome[of "lit ''Asha''" "[0]" "[route_12A]" store_booked sample_reader]
    h2 h3 h4 h5
  have c2: "\<exists>b. book_ticket (lit ''Asha'') [0] [route_12A] store_booked =
               (Inr (b, qr_data b),
                store_booked\<lparr>bookings := bookings store_booked @ [b],
                              bookings_seq := bookings_seq store_booked + 1\<rparr>)
           \<and> status b = lit ''Booked'' \<and> passenger b = strip (lit ''Asha'')
           \<and> rowid b = bookings_seq store_booked + 1
           \<and> rowid b \<notin> rowid ` set (bookings store_booked)"
    by blast
  show ?thesis using h1 h2 h3 h4 h5 c1 c2 by blast
qed

text \<open>
  Claim C9. The name is stripped before it is tested and before it is stored. A name made of
  white space only is rejected exactly as the empty name is, with the validation error and
  the store unchanged; a name with any other character in it, and a route selected from the
  catalogue, is accepted. The name stored is the name entered with a run of white space cut
  off each end: it is not empty, neither begins nor ends with white space, and is the only
  such part of the entry between two runs of white space. In every reachable store each
  booking's passenger is non-empty and neither begins nor ends with white space.
\<close>

theorem book_ticket_strips:
  "(list_all isspace e \<longrightarrow>
      book_ticket e sel rs s = book_ticket [] sel rs s
      \<and> book_ticket e sel rs s = (Inl ValidationError, s))
   \<and> (\<not> list_all isspace e \<and> sel \<noteq> [] \<and> hd sel < length rs \<longrightarrow>
        (\<exists>b p s'. book_ticket e sel rs s = (Inr (b, p), s')))
   \<and> (book_ticket e sel rs s = (Inr (b, p), s') \<longrightarrow>
        passenger b = strip e \<and> last (bookings s') = b
        \<and> (\<exists>l r. e = l @ passenger b @ r \<and> list_all isspace l \<and> list_all isspace r)
        \<and> passenger b \<noteq> [] \<and> \<not> isspace (hd (passenger b)) \<and> \<not> isspace (last (passenger b))
        \<and> (\<forall>l x r. e = l @ x @ r \<and> list_all isspace l \<and> list_all isspace r
               \<and> x \<noteq> [] \<and> \<not> isspace (hd x) \<and> \<not> isspace (last x) \<longrightarrow> passenger b = x))
   \<and> (reachable fp s \<longrightarrow>
        (\<forall>r\<in>set (bookings s).
           passenger r \<noteq> [] \<and> \<not> isspace (hd (passenger r)) \<and> \<not> isspace (last (passenger r))))"
proof -
  have a: "book_ticket e sel rs s = book_ticket [] sel rs s
           \<and> book_ticket e sel rs s = (Inl ValidationError, s)" if "list_all isspace e"
  proof -
    have "strip e = []" using that by (simp add: strip_empty_iff)
    moreover have "strip [] = []" by (simp add: strip_def)
    ultimately show ?thesis by (simp add: book_ticket_rejects)
  qed
  have a': "\<exists>b p s'. book_ticket e sel rs s = (Inr (b, p), s')"
    if "\<not> list_all isspace e" "sel \<noteq> []" "hd sel < length rs"
  proof -
    have "strip e \<noteq> []" using that(1) by (simp add: strip_empty_iff)
    from book_ticket_accepts[OF this that(2) that(3)] show ?thesis by blast
  qed
  have b: "passenger b = strip e \<and> last (bookings s') = b
        \<and> (\<exists>l r. e = l @ passenger b @ r \<and> list_all isspace l \<and> list_all isspace r)
        \<and> passenger b \<noteq> [] \<and> \<not> isspace (hd (passenger b)) \<and> \<not> isspace (last (passenger b))
        \<and> (\<forall>l x r. e = l @ x @ r \<and> list_all isspace l \<and> list_all isspace r
               \<and> x \<noteq> [] \<and> \<not> isspace (hd x) \<and> \<not> isspace (last x) \<longrightarrow> passenger b = x)"
    if bk: "book_ticket e sel rs s = (Inr (b, p), s')"
  proof -
    from book_ticket_Inr[OF bk] have ne: "strip e \<noteq> []"
      and pb: "passenger b = strip e" and lb: "last (bookings s') = b"
      by (simp_all add: booked_row_def)
    from strip_cut[of e] obtain l0 r0 where cut: "e = l0 @ strip e @ r0"
      "list_all isspace l0" "list_all isspace r0" by blast
    note ends = strip_ends[OF ne]
    have uniq: "strip e = x"
      if "e = l @ x @ r" "list_all isspace l" "list_all isspace r"
         "x \<noteq> []" "\<not> isspace (hd x)" "\<not> isspace (last x)" for l x r
    proof -
      have "l0 @ strip e @ r0 = l @ x @ r" using cut(1) that(1) by simp
      from cut_unique[OF this cut(2) cut(3) that(2) that(3) ne _ _ that(4) that(5) that(6)] ends
      show ?thesis by blast
    qed
    have ex: "\<exists>l r. e = l @ strip e @ r \<and> list_all isspace l \<and> list_all isspace r"
      using cut by blast
    have un: "\<forall>l x r. e = l @ x @ r \<and> list_all isspace l \<and> list_all isspace r
               \<and> x \<noteq> [] \<and> \<not> isspace (hd x) \<and> \<not> isspace (last x) \<longrightarrow> strip e = x"
      using uniq by blast
    show ?thesis unfolding pb using lb ex ne ends un by (intro conjI) (rule refl, assumption+, simp_all)
  qed
  have c: "\<forall>r\<in>set (bookings s).
           passenger r \<noteq> [] \<and> \<not> isspace (hd (passenger r)) \<and> \<not> isspace (last (passenger r))"
    if "reachable fp s"
    using reachable_rows[OF that] by blast
  show ?thesis using a a' b c by blast
qed

lemma strip_padded: "strip (lit ''  Asha '') = lit ''Asha''"
  by (simp add: strip_def isspace_def lit_def)

lemma book_padded:
  "book_ticket (lit ''  Asha '') [0] [route_12A] fresh_store = (Inr (asha, asha_payload), store_booked)"
  by (simp add: book_ticket_def insert_booking_def strip_padded route_12A_def fresh_store_def
        store_booked_def qr_data_asha [symmetric] Let_def)
     (simp add: asha_def lit_def)

theorem book_ticket_strips_witness:
  "list_all isspace [0x20, 0x09, 0x3000]
   \<and> book_ticket [0x20, 0x09, 0x3000] [0] [route_12A] fresh_store
       = book_ticket [] [0] [route_12A] fresh_store
   \<and> book_ticket [0x20, 0x09, 0x3000] [0] [route_12A] fresh_store
       = (Inl ValidationError, fresh_store)
   \<and> \<not> list_all isspace (lit ''  Asha '') \<and> [0::nat] \<noteq> [] \<and> hd [0::nat] < length [route_12A]
   \<and> (\<exists>b p s'. book_ticket (lit ''  Asha '') [0] [route_12A] fresh_store = (Inr (b, p), s'))
   \<and> book_ticket (lit ''  Asha '') [0] [route_12A] fresh_store
       = (Inr (asha, asha_payload), store_booked)
   \<and> passenger asha = strip (lit ''  Asha '') \<and> last (bookings store_booked) = asha
   \<and> (\<exists>l r. lit ''  Asha '' = l @ passenger asha @ r \<and> list_all isspace l \<and> list_all isspace r)
   \<and> lit ''  Asha '' = lit ''  '' @ lit ''Asha'' @ lit '' ''
   \<and> passenger asha = lit ''Asha''
   \<and> reachable sample_reader store_booked
   \<and> passenger (hd (bookings store_booked)) \<noteq> []
   \<and> \<not> isspace (hd (passenger (hd (bookings store_booked))))
   \<and> \<not> isspace (last (passenger (hd (bookings store_booked))))"
proof -
  have h1: "list_all isspace [0x20, 0x09, 0x3000]" by (simp add: isspace_def)
  have h4: "\<not> list_all isspace (lit ''  Asha '')" by (simp add: isspace_def lit_def)
  have h5: "[0::nat] \<noteq> []" "hd [0::nat] < length [route_12A]" by simp_all
  note h2 = book_padded
  have h3: "reachable sample_reader store_booked" by (rule reachable_booked)
  have g: "lit ''  Asha '' = lit ''  '' @ lit ''Asha'' @ lit '' ''"
    "list_all isspace (lit ''  '')" "list_all isspace (lit '' '')" "lit ''Asha'' \<noteq> []"
    "\<not> isspace (hd (lit ''Asha''))" "\<not> isspace (last (lit ''Asha''))"
    by (simp_all add: isspace_def lit_def)
  from book_ticket_strips[of "[0x20, 0x09, 0x3000]" "[0]" "[route_12A]" fresh_store] h1
  have c1: "book_ticket [0x20, 0x09, 0x3000] [0] [route_12A] fresh_store
        = book_ticket [] [0] [route_12A] fresh_store
      \<and> book_ticket [0x20, 0x09, 0x3000] [0] [route_12A] fresh_store
        = (Inl ValidationError, fresh_store)"
    by blast
  from book_ticket_strips[of "lit ''  Asha ''" "[0]" "[route_12A]" fresh_store] h4 h5
  have c4: "\<exists>b p s'. book_ticket (lit ''  Asha '') [0] [route_12A] fresh_store = (Inr (b, p), s')"
    by blast
  have m: "hd (bookings store_booked) \<in> set (bookings store_booked)"
    by (simp add: store_booked_def)
  from book_ticket_strips[of _ _ _ store_booked _ _ _ sample_reader] h3 m
  have c3: "passenger (hd (bookings store_booked)) \<noteq> []
      \<and> \<not> isspace (hd (passenger (hd (bookings store_booked))))
      \<and> \<not> isspace (last (passenger (hd (bookings store_booked))))"
    by blast
  from book_ticket_strips[of "lit ''  Asha ''" "[0]" "[route_12A]" fresh_store asha asha_payload store_booked] h2
  have c2: "passenger asha = strip (lit ''  Asha '') \<and> last (bookings store_booked) = asha
      \<and> (\<exists>l r. lit ''  Asha '' = l @ passenger asha @ r \<and> list_all isspace l \<and> list_all isspace r)"
    and c5: "\<forall>l x r. lit ''  Asha '' = l @ x @ r \<and> list_all isspace l \<and> list_all isspace r
               \<and> x \<noteq> [] \<and> \<not> isspace (hd x) \<and> \<not> isspace (last x) \<longrightarrow> passenger asha = x"
    by blast+
  from c5 g have c6: "passenger asha = lit ''Asha''" by blast
  show ?thesis using h1 h2 h3 h4 h5 g(1) c1 c2 c3 c4 c6 by blast
qed

section \<open>Validation\<close>

lemma update_status_no_match:
  "\<forall>b\<in>set (bookings s). \<not> id_matches fp bid (rowid b) \<Longrightarrow> update_status fp bid s = s"
proof -
  assume a: "\<forall>b\<in>set (bookings s). \<not> id_matches fp bid (rowid b)"
  have "map (\<lambda>b. if id_matches fp bid (rowid b) then b\<lparr>status := lit ''Validated''\<rparr> else b)
          (bookings s)
          = bookings s"
    using a by (intro map_idI) simp
  then show ?thesis by (simp add: update_status_def)
qed

lemma validate_marked:
  "str_contains marker t \<Longrightarrow>
   validate fp m now t s =
     (Inr (extract_booking_id t),
      add_log fp (extract_booking_id t) m now (update_status fp (extract_booking_id t) s))"
  by (simp add: validate_def decode_booking_id_def)

text \<open>
  Claim C7. The update of lines 117 to 119 has no existence check and no error outcome. An id
  matches a booking when the number the engine converts the text to is the booking's id, be
  it through the plain integer reading or through the floating-point reader. For every text
  id that matches no booking row, the update returns the store exactly as it was; a
  validation whose decoded id matches no row still succeeds, and leaves every booking row and
  the booking sequence untouched. This holds whatever the floating-point reader is.
\<close>

theorem update_status_unknown_id:
  "((\<forall>b\<in>set (bookings s). \<not> id_matches fp bid (rowid b)) \<longrightarrow> update_status fp bid s = s)
   \<and> (str_contains marker t
        \<and> (\<forall>b\<in>set (bookings s). \<not> id_matches fp (extract_booking_id t) (rowid b)) \<longrightarrow>
          fst (validate fp m now t s) = Inr (extract_booking_id t)
          \<and> bookings (snd (validate fp m now t s)) = bookings s
          \<and> bookings_seq (snd (validate fp m now t s)) = bookings_seq s)"
proof -
  have a: "(\<forall>b\<in>set (bookings s). \<not> id_matches fp bid (rowid b)) \<longrightarrow> update_status fp bid s = s"
    using update_status_no_match[of s fp bid] by blast
  have b: "fst (validate fp m now t s) = Inr (extract_booking_id t)
          \<and> bookings (snd (validate fp m now t s)) = bookings s
          \<and> bookings_seq (snd (validate fp m now t s)) = bookings_seq s"
    if "str_contains marker t"
       "\<forall>b\<in>set (bookings s). \<not> id_matches fp (extract_booking_id t) (rowid b)"
    using that update_status_no_match[of s fp "extract_booking_id t"]
    by (simp add: validate_marked add_log_def)
  show ?thesis using a b by blast
qed

lemma extract_float_id: "extract_booking_id (lit ''BookingID:2.0|Passenger:Nobody'') = lit ''2.0''"
  by (simp add: extract_booking_id_def split_first_def marker_def bar_def lit_def)

lemma integer_of_text_99: "integer_of_text (lit ''99'') = Some 99"
  by (simp add: integer_of_text_def sqlite_isspace_def unsigned_of_text_def isdigit_def
        digits_value_def lit_def)

lemma integer_of_text_float: "integer_of_text (lit ''2.0'') = None"
  "integer_of_text (lit ''1.0'') = None"
  by (simp_all add: integer_of_text_def sqlite_isspace_def unsigned_of_text_def isdigit_def
        lit_def)

lemma no_match_99: "\<not> id_matches sample_reader (lit ''99'') (rowid asha)"
  by (simp add: id_matches_def integer_affinity_def integer_of_text_99 asha_def)

lemma no_match_float: "\<not> id_matches sample_reader (lit ''2.0'') (rowid asha)"
  by (simp add: id_matches_def integer_affinity_def integer_of_text_float asha_def
        sample_reader_def) (simp add: lit_def)

text \<open>
  A text in decimal-point notation that the engine reads as the id of a row does select the
  row: with a reader that takes \<^verbatim>\<open>1.0\<close> as the integer 1, the update validates booking 1.
\<close>

lemma update_status_float_text:
  "id_matches sample_reader (lit ''1.0'') (rowid asha)
   \<and> update_status sample_reader (lit ''1.0'') store_booked
       = store_booked\<lparr>bookings := [asha\<lparr>status := lit ''Validated''\<rparr>]\<rparr>"
  by (simp add: id_matches_def integer_affinity_def integer_of_text_float asha_def
        sample_reader_def update_status_def store_booked_def)

theorem update_status_unknown_id_witness:
  "bookings store_booked = [asha] \<and> \<not> id_matches sample_reader (lit ''99'') (rowid asha)
   \<and> update_status sample_reader (lit ''99'') store_booked = store_booked
   \<and> str_contains marker (lit ''BookingID:2.0|Passenger:Nobody'')
   \<and> extract_booking_id (lit ''BookingID:2.0|Passenger:Nobody'') = lit ''2.0''
   \<and> \<not> id_matches sample_reader (lit ''2.0'') (rowid asha)
   \<and> fst (validate sample_reader (lit ''Image'') (lit ''t'')
             (lit ''BookingID:2.0|Passenger:Nobody'') store_booked) = Inr (lit ''2.0'')
   \<and> bookings (snd (validate sample_reader (lit ''Image'') (lit ''t'')
                       (lit ''BookingID:2.0|Passenger:Nobody'') store_booked))
       = bookings store_booked"
proof -
  let ?t = "lit ''BookingID:2.0|Passenger:Nobody''"
  have h0: "bookings store_booked = [asha]" by (simp add: store_booked_def)
  note hn = no_match_99
  note hf = no_match_float
  have h1: "\<forall>b\<in>set (bookings store_booked). \<not> id_matches sample_reader (lit ''99'') (rowid b)"
    using hn by (simp add: h0)
  have h2: "str_contains marker ?t" by (simp add: marker_def lit_def)
  note e = extract_float_id
  have h3: "\<forall>b\<in>set (bookings store_booked).
              \<not> id_matches sample_reader (extract_booking_id ?t) (rowid b)"
    unfolding e using hf by (simp add: h0)
  from update_status_unknown_id[of store_booked sample_reader "lit ''99''"] h1
  have c1: "update_status sample_reader (lit ''99'') store_booked = store_booked" by blast
  from update_status_unknown_id[of store_booked sample_reader _ ?t "lit ''Image''" "lit ''t''"] h2 h3
  have c2: "fst (validate sample_reader (lit ''Image'') (lit ''t'') ?t store_booked)
              = Inr (extract_booking_id ?t)
          \<and> bookings (snd (validate sample_reader (lit ''Image'') (lit ''t'') ?t store_booked))
              = bookings store_booked"
    by blast
  from c2 have c2': "fst (validate sample_reader (lit ''Image'') (lit ''t'') ?t store_booked)
              = Inr (lit ''2.0'')
          \<and> bookings (snd (validate sample_reader (lit ''Image'') (lit ''t'') ?t store_booked))
              = bookings store_booked"
    by (simp only: e)
  show ?thesis using h0 hn hf h2 e c1 c2' by blast
qed

lemma id_matches_str_int: "id_matches fp (str_int i) j = (j = i)"
  by (auto simp: id_matches_def integer_affinity_def integer_of_text_str_int)

lemma integer_affinity_str_int: "integer_affinity fp (str_int i) = SqlInteger i"
  by (simp add: integer_affinity_def integer_of_text_str_int)

lemma validate_qr_data:
  "validate fp m now (qr_data b) s =
     (Inr (str_int (rowid b)),
      s\<lparr>bookings := map (\<lambda>r. if rowid r = rowid b then r\<lparr>status := lit ''Validated''\<rparr> else r)
                        (bookings s),
        validation_logs := validation_logs s @
          [\<lparr>log_id = validation_logs_seq s + 1, booking_id = SqlInteger (rowid b),
            log_method = m, timestamp = now\<rparr>],
        validation_logs_seq := validation_logs_seq s + 1\<rparr>)"
  by (simp add: validate_marked contains_qr_data extract_qr_data add_log_def update_status_def
        id_matches_str_int integer_affinity_str_int)

lemma validate_asha_image:
  "validate fp (lit ''Image'') (lit ''2024-01-01 09:00:00'') asha_payload store_booked
     = (Inr (lit ''1''), store_validated)"
  unfolding qr_data_asha [symmetric]
  by (simp add: validate_qr_data str_int_1 [symmetric])
     (simp add: store_booked_def store_validated_def asha_def)

lemma validate_asha_webcam:
  "validate fp (lit ''Webcam'') (lit ''2024-01-01 09:05:00'') asha_payload store_validated
     = (Inr (lit ''1''), store_revalidated)"
  unfolding qr_data_asha [symmetric]
  by (simp add: validate_qr_data str_int_1 [symmetric])
     (simp add: store_validated_def store_revalidated_def asha_def)

lemma step_keeps:
  assumes "step fp s s'" and "i < length (bookings s)"
  shows "i < length (bookings s') \<and> rowid (bookings s' ! i) = rowid (bookings s ! i)
         \<and> (status (bookings s ! i) = lit ''Validated''
              \<longrightarrow> status (bookings s' ! i) = lit ''Validated'')"
proof -
  from step_cases[OF assms(1)]
  consider "s' = s"
    | e row where
        "s' = s\<lparr>bookings := bookings s @ [booked_row e row s], bookings_seq := bookings_seq s + 1\<rparr>"
    | bid m now where "s' = add_log fp bid m now (update_status fp bid s)"
    by blast
  then show ?thesis
  proof cases
    case 1
    then show ?thesis using assms(2) by simp
  next
    case 2
    then show ?thesis using assms(2) by (simp add: nth_append)
  next
    case 3
    then show ?thesis using assms(2) by (simp add: bookings_validated)
  qed
qed

lemma steps_keep:
  assumes "rtranclp (step fp) s s'" and "i < length (bookings s)"
  shows "i < length (bookings s') \<and> rowid (bookings s' ! i) = rowid (bookings s ! i)
         \<and> (status (bookings s ! i) = lit ''Validated''
              \<longrightarrow> status (bookings s' ! i) = lit ''Validated'')"
  using assms
proof (induction rule: rtranclp_induct)
  case base
  then show ?case by simp
next
  case (step y z)
  from step.IH[OF step.prems] have y: "i < length (bookings y)"
    "rowid (bookings y ! i) = rowid (bookings s ! i)"
    "status (bookings s ! i) = lit ''Validated'' \<longrightarrow> status (bookings y ! i) = lit ''Validated''"
    by blast+
  from step_keeps[OF step.hyps(2) y(1)] y show ?case by simp
qed

lemma step_validated_revalidated: "step fp store_validated store_revalidated"
proof -
  have "step fp store_validated
          (snd (validate_via_webcam fp (lit ''2024-01-01 09:05:00'') [([asha_payload], False)]
                  store_validated))"
    by (rule step.webcam)
  moreover have "str_contains marker asha_payload"
    unfolding qr_data_asha [symmetric] by (rule contains_qr_data)
  ultimately show ?thesis by (simp add: validate_asha_webcam)
qed

lemma reachable_validated: "reachable fp store_validated"
proof -
  have "step fp store_booked
          (snd (validate_from_image fp (lit ''2024-01-01 09:00:00'') (Some [asha_payload])
                  store_booked))"
    by (rule step.image)
  then have "step fp store_booked store_validated"
    by (simp add: validate_from_image_def validate_asha_image)
  with reachable_booked show ?thesis by (rule reachable.next_step)
qed

text \<open>
  Claim C3. For every payload that a booking produced, a validation of that payload, in any
  store, succeeds with the booking's id, sets the status of the row with that id to Validated
  and changes no other row, and appends exactly one log row, with the next log id, the
  booking's id, the method given and the time given. The image path is this validation with
  the method Image and the camera path is it with the method Webcam. Run on the store the
  booking left, in a reachable history, it turns the booked row, and only it, to Validated.
\<close>

theorem validate_booked_payload:
  "book_ticket e sel rs s0 = (Inr (b, p), s1) \<longrightarrow>
     validate fp m now p s =
       (Inr (str_int (rowid b)),
        s\<lparr>bookings := map (\<lambda>r. if rowid r = rowid b then r\<lparr>status := lit ''Validated''\<rparr> else r)
                          (bookings s),
          validation_logs := validation_logs s @
            [\<lparr>log_id = validation_logs_seq s + 1, booking_id = SqlInteger (rowid b),
              log_method = m, timestamp = now\<rparr>],
          validation_logs_seq := validation_logs_seq s + 1\<rparr>)
     \<and> validate_from_image fp now (Some (p # rest)) s = validate fp (lit ''Image'') now p s
     \<and> validate_via_webcam fp now ((p # codes, q) # frames) s
         = validate fp (lit ''Webcam'') now p s
     \<and> (reachable fp s0 \<longrightarrow>
          bookings (snd (validate fp m now p s1))
            = bookings s0 @ [b\<lparr>status := lit ''Validated''\<rparr>])"
proof
  assume bk: "book_ticket e sel rs s0 = (Inr (b, p), s1)"
  from book_ticket_Inr[OF bk] have p: "p = qr_data b"
    and b: "b = booked_row e (rs ! hd sel) s0"
    and s1: "s1 = s0\<lparr>bookings := bookings s0 @ [b], bookings_seq := bookings_seq s0 + 1\<rparr>"
    by blast+
  have 1: "validate fp m now p s =
       (Inr (str_int (rowid b)),
        s\<lparr>bookings := map (\<lambda>r. if rowid r = rowid b then r\<lparr>status := lit ''Validated''\<rparr> else r)
                          (bookings s),
          validation_logs := validation_logs s @
            [\<lparr>log_id = validation_logs_seq s + 1, booking_id = SqlInteger (rowid b),
              log_method = m, timestamp = now\<rparr>],
          validation_logs_seq := validation_logs_seq s + 1\<rparr>)"
    unfolding p by (rule validate_qr_data)
  have 2: "validate_from_image fp now (Some (p # rest)) s = validate fp (lit ''Image'') now p s"
    by (simp add: validate_from_image_def)
  have 3: "validate_via_webcam fp now ((p # codes, q) # frames) s
             = validate fp (lit ''Webcam'') now p s"
    using contains_qr_data[of b] by (simp add: p)
  have 4: "bookings (snd (validate fp m now p s1))
             = bookings s0 @ [b\<lparr>status := lit ''Validated''\<rparr>]"
    if r: "reachable fp s0"
  proof -
    have "rowid r \<noteq> rowid b" if "r \<in> set (bookings s0)" for r
      using reachable_rows[OF r that] by (simp add: b booked_row_def)
    then have "map (\<lambda>r. if rowid r = rowid b then r\<lparr>status := lit ''Validated''\<rparr> else r)
                 (bookings s0)
                 = bookings s0"
      by (intro map_idI) simp
    then show ?thesis unfolding p by (simp add: validate_qr_data s1)
  qed
  show "validate fp m now p s =
       (Inr (str_int (rowid b)),
        s\<lparr>bookings := map (\<lambda>r. if rowid r = rowid b then r\<lparr>status := lit ''Validated''\<rparr> else r)
                          (bookings s),
          validation_logs := validation_logs s @
            [\<lparr>log_id = validation_logs_seq s + 1, booking_id = SqlInteger (rowid b),
              log_method = m, timestamp = now\<rparr>],
          validation_logs_seq := validation_logs_seq s + 1\<rparr>)
     \<and> validate_from_image fp now (Some (p # rest)) s = validate fp (lit ''Image'') now p s
     \<and> validate_via_webcam fp now ((p # codes, q) # frames) s
         = validate fp (lit ''Webcam'') now p s
     \<and> (reachable fp s0 \<longrightarrow>
          bookings (snd (validate fp m now p s1))
            = bookings s0 @ [b\<lparr>status := lit ''Validated''\<rparr>])"
    using 1 2 3 4 by blast
qed

theorem validate_booked_payload_witness:
  "book_ticket (lit ''Asha'') [0] [route_12A] fresh_store = (Inr (asha, asha_payload), store_booked)
   \<and> reachable sample_reader fresh_store
   \<and> validate sample_reader (lit ''Webcam'') (lit ''t'') asha_payload store_booked =
       (Inr (str_int (rowid asha)),
        store_booked\<lparr>bookings :=
            map (\<lambda>r. if rowid r = rowid asha then r\<lparr>status := lit ''Validated''\<rparr> else r)
              (bookings store_booked),
          validation_logs := validation_logs store_booked @
            [\<lparr>log_id = validation_logs_seq store_booked + 1, booking_id = SqlInteger (rowid asha),
              log_method = lit ''Webcam'', timestamp = lit ''t''\<rparr>],
          validation_logs_seq := validation_logs_seq store_booked + 1\<rparr>)
   \<and> validate_from_image sample_reader (lit ''t'') (Some [asha_payload]) store_booked
       = validate sample_reader (lit ''Image'') (lit ''t'') asha_payload store_booked
   \<and> validate_via_webcam sample_reader (lit ''t'') [([asha_payload], False)] store_booked
       = validate sample_reader (lit ''Webcam'') (lit ''t'') asha_payload store_booked
   \<and> bookings (snd (validate sample_reader (lit ''Webcam'') (lit ''t'') asha_payload store_booked))
       = bookings fresh_store @ [asha\<lparr>status := lit ''Validated''\<rparr>]"
  using validate_booked_payload
          [of "lit ''Asha''" "[0]" "[route_12A]" fresh_store asha asha_payload store_booked
              sample_reader "lit ''Webcam''" "lit ''t''" store_booked "[]" "[]" False "[]"]
        book_asha reachable_fresh[of sample_reader]
  by blast

text \<open>
  Claim C4. Validating the payload of a booking twice in a row succeeds both times. After the
  first call the booking's status is Validated; the second call leaves every booking row as
  the first left it; and the log table has gained two rows, one per call, each with the method
  and the time of its call.
\<close>

theorem validate_twice:
  "book_ticket e sel rs s0 = (Inr (b, p), s1)
   \<and> validate fp m1 t1 p s = (r1, s') \<and> validate fp m2 t2 p s' = (r2, s'') \<longrightarrow>
     r1 = Inr (str_int (rowid b)) \<and> r2 = Inr (str_int (rowid b))
     \<and> (\<forall>r\<in>set (bookings s'). rowid r = rowid b \<longrightarrow> status r = lit ''Validated'')
     \<and> bookings s'' = bookings s'
     \<and> validation_logs s'' = validation_logs s @
          [\<lparr>log_id = validation_logs_seq s + 1, booking_id = SqlInteger (rowid b),
            log_method = m1, timestamp = t1\<rparr>,
           \<lparr>log_id = validation_logs_seq s + 2, booking_id = SqlInteger (rowid b),
            log_method = m2, timestamp = t2\<rparr>]
     \<and> length (validation_logs s'') = length (validation_logs s) + 2"
proof
  assume a: "book_ticket e sel rs s0 = (Inr (b, p), s1)
   \<and> validate fp m1 t1 p s = (r1, s') \<and> validate fp m2 t2 p s' = (r2, s'')"
  then have p: "p = qr_data b" using book_ticket_Inr[of e sel rs s0 b p s1] by blast
  let ?f = "\<lambda>r. if rowid r = rowid b then r\<lparr>status := lit ''Validated''\<rparr> else r"
  from a have v1: "validate fp m1 t1 (qr_data b) s = (r1, s')"
    and v2: "validate fp m2 t2 (qr_data b) s' = (r2, s'')" by (simp_all add: p)
  from v1 have r1: "r1 = Inr (str_int (rowid b))"
    and b1: "bookings s' = map ?f (bookings s)"
    and l1: "validation_logs s' = validation_logs s @
          [\<lparr>log_id = validation_logs_seq s + 1, booking_id = SqlInteger (rowid b),
            log_method = m1, timestamp = t1\<rparr>]"
    and q1: "validation_logs_seq s' = validation_logs_seq s + 1"
    by (auto simp: validate_qr_data)
  from v2 have r2: "r2 = Inr (str_int (rowid b))"
    and b2: "bookings s'' = map ?f (bookings s')"
    and l2: "validation_logs s'' = validation_logs s' @
          [\<lparr>log_id = validation_logs_seq s' + 1, booking_id = SqlInteger (rowid b),
            log_method = m2, timestamp = t2\<rparr>]"
    by (auto simp: validate_qr_data)
  have st: "\<forall>r\<in>set (bookings s'). rowid r = rowid b \<longrightarrow> status r = lit ''Validated''"
    by (auto simp: b1)
  have same: "bookings s'' = bookings s'"
    unfolding b2 using st by (intro map_idI) auto
  have logs: "validation_logs s'' = validation_logs s @
          [\<lparr>log_id = validation_logs_seq s + 1, booking_id = SqlInteger (rowid b),
            log_method = m1, timestamp = t1\<rparr>,
           \<lparr>log_id = validation_logs_seq s + 2, booking_id = SqlInteger (rowid b),
            log_method = m2, timestamp = t2\<rparr>]"
    by (simp add: l2 l1 q1)
  have len: "length (validation_logs s'') = length (validation_logs s) + 2"
    by (simp add: logs)
  show "r1 = Inr (str_int (rowid b)) \<and> r2 = Inr (str_int (rowid b))
     \<and> (\<forall>r\<in>set (bookings s'). rowid r = rowid b \<longrightarrow> status r = lit ''Validated'')
     \<and> bookings s'' = bookings s'
     \<and> validation_logs s'' = validation_logs s @
          [\<lparr>log_id = validation_logs_seq s + 1, booking_id = SqlInteger (rowid b),
            log_method = m1, timestamp = t1\<rparr>,
           \<lparr>log_id = validation_logs_seq s + 2, booking_id = SqlInteger (rowid b),
            log_method = m2, timestamp = t2\<rparr>]
     \<and> length (validation_logs s'') = length (validation_logs s) + 2"
    using r1 r2 st same logs len by blast
qed

theorem validate_twice_witness:
  "book_ticket (lit ''Asha'') [0] [route_12A] fresh_store = (Inr (asha, asha_payload), store_booked)
   \<and> validate sample_reader (lit ''Image'') (lit ''2024-01-01 09:00:00'') asha_payload store_booked
       = (Inr (lit ''1''), store_validated)
   \<and> validate sample_reader (lit ''Webcam'') (lit ''2024-01-01 09:05:00'') asha_payload
        store_validated
       = (Inr (lit ''1''), store_revalidated)
   \<and> status (hd (bookings store_validated)) = lit ''Validated''
   \<and> bookings store_revalidated = bookings store_validated
   \<and> length (validation_logs store_revalidated) = length (validation_logs store_booked) + 2"
proof -
  note v1 = validate_asha_image[of sample_reader]
  note v2 = validate_asha_webcam[of sample_reader]
  from validate_twice
          [of "lit ''Asha''" "[0]" "[route_12A]" fresh_store asha asha_payload store_booked
              sample_reader "lit ''Image''" "lit ''2024-01-01 09:00:00''" store_booked
              "Inr (lit ''1'')" store_validated
              "lit ''Webcam''" "lit ''2024-01-01 09:05:00''" "Inr (lit ''1'')" store_revalidated]
        book_asha v1 v2
  have c: "(\<forall>r\<in>set (bookings store_validated). rowid r = rowid asha
              \<longrightarrow> status r = lit ''Validated'')
     \<and> bookings store_revalidated = bookings store_validated
     \<and> length (validation_logs store_revalidated) = length (validation_logs store_booked) + 2"
    by blast
  have m: "hd (bookings store_validated) \<in> set (bookings store_validated)"
    and n: "rowid (hd (bookings store_validated)) = rowid asha"
    by (simp_all add: store_validated_def)
  from c m n have "status (hd (bookings store_validated)) = lit ''Validated''" by blast
  with c show ?thesis using book_asha v1 v2 by blast
qed

section \<open>The life cycle of a booking\<close>

text \<open>
  Claim C8. In every store reachable from the setup by bookings and validations (through the
  image or the camera path), each booking's status is Booked or Validated. A booking is
  created with status Booked. Over any sequence of operations every row stays in its place
  with its id, and a row whose status is Validated has status Validated afterwards.
\<close>

theorem booking_status_lifecycle:
  "(reachable fp s \<longrightarrow>
      (\<forall>b\<in>set (bookings s). status b = lit ''Booked'' \<or> status b = lit ''Validated''))
   \<and> (book_ticket e sel rs s = (Inr (b, p), s') \<longrightarrow>
        status b = lit ''Booked'' \<and> last (bookings s') = b)
   \<and> (rtranclp (step fp) s s'' \<longrightarrow>
        (\<forall>i<length (bookings s).
           i < length (bookings s'') \<and> rowid (bookings s'' ! i) = rowid (bookings s ! i)
           \<and> (status (bookings s ! i) = lit ''Validated''
                \<longrightarrow> status (bookings s'' ! i) = lit ''Validated'')))"
proof -
  have a: "\<forall>b\<in>set (bookings s). status b = lit ''Booked'' \<or> status b = lit ''Validated''"
    if "reachable fp s"
    using reachable_rows[OF that] by blast
  have b: "status b = lit ''Booked'' \<and> last (bookings s') = b"
    if "book_ticket e sel rs s = (Inr (b, p), s')"
    using book_ticket_Inr[OF that] by (simp add: booked_row_def)
  have c: "\<forall>i<length (bookings s).
           i < length (bookings s'') \<and> rowid (bookings s'' ! i) = rowid (bookings s ! i)
           \<and> (status (bookings s ! i) = lit ''Validated''
                \<longrightarrow> status (bookings s'' ! i) = lit ''Validated'')"
    if "rtranclp (step fp) s s''"
    using steps_keep[OF that] by blast
  show ?thesis using a b c by blast
qed

theorem booking_status_lifecycle_witness:
  "reachable sample_reader store_validated
   \<and> (status (hd (bookings store_validated)) = lit ''Booked''
        \<or> status (hd (bookings store_validated)) = lit ''Validated'')
   \<and> book_ticket (lit ''Asha'') [0] [route_12A] fresh_store
       = (Inr (asha, asha_payload), store_booked)
   \<and> status asha = lit ''Booked'' \<and> last (bookings store_booked) = asha
   \<and> rtranclp (step sample_reader) store_validated store_revalidated
   \<and> 0 < length (bookings store_validated)
   \<and> status (bookings store_validated ! 0) = lit ''Validated''
   \<and> 0 < length (bookings store_revalidated)
   \<and> rowid (bookings store_revalidated ! 0) = rowid (bookings store_validated ! 0)
   \<and> status (bookings store_revalidated ! 0) = lit ''Validated''"
proof -
  have h1: "reachable sample_reader store_validated" by (rule reachable_validated)
  note h2 = book_asha
  have h3: "rtranclp (step sample_reader) store_validated store_revalidated"
    using step_validated_revalidated by (rule r_into_rtranclp)
  have m: "hd (bookings store_validated) \<in> set (bookings store_validated)"
    by (simp add: store_validated_def)
  have h4: "0 < length (bookings store_validated)" by (simp add: store_validated_def)
  have h5: "status (bookings store_validated ! 0) = lit ''Validated''"
    by (simp add: store_validated_def)
  from booking_status_lifecycle[of sample_reader store_validated] h1 m
  have c1: "status (hd (bookings store_validated)) = lit ''Booked''
        \<or> status (hd (bookings store_validated)) = lit ''Validated''"
    by blast
  from booking_status_lifecycle
         [of _ fresh_store "lit ''Asha''" "[0]" "[route_12A]" asha asha_payload store_booked] h2
  have c2: "status asha = lit ''Booked'' \<and> last (bookings store_booked) = asha" by blast
  from booking_status_lifecycle
         [of sample_reader store_validated _ _ _ _ _ _ store_revalidated] h3 h4 h5
  have c3: "0 < length (bookings store_revalidated)
         \<and> rowid (bookings store_revalidated ! 0) = rowid (bookings store_validated ! 0)
         \<and> status (bookings store_revalidated ! 0) = lit ''Validated''"
    by blast
  show ?thesis using h1 h2 h3 h4 h5 c1 c2 c3 by blast
qed

end
